theory Spec2Isabelle
  imports
    Main
    "HOL-Library.AList"
    "HOL-Library.Char_ord"
    "HOL-Library.Code_Target_Numeral"
    "HOL-Library.List_Lexorder"
    "HOL-Library.Multiset"
begin

section \<open>JavaScript numbers and strings as the worker uses them\<close>

text \<open>
  The worker keeps every counter as a decimal string in the key-value store and reads it
  back with \<^verbatim>\<open>parseInt(... || '0')\<close>. A JavaScript number is modelled as
  \<open>int option\<close>: \<open>None\<close> is \<^verbatim>\<open>NaN\<close> (which \<^verbatim>\<open>JSON.stringify\<close> prints as
  \<^verbatim>\<open>null\<close>), \<open>Some n\<close> an integer. Integers are exact here; the loss of precision of
  a double beyond \<open>2^53\<close> and the exponent notation of \<^verbatim>\<open>String\<close> from \<open>10^21\<close> on are
  outside the model.
\<close>

type_synonym jsnum = "int option"

definition jadd :: "jsnum \<Rightarrow> jsnum \<Rightarrow> jsnum" where
  "jadd a b = (case a of None \<Rightarrow> None | Some x \<Rightarrow> (case b of None \<Rightarrow> None | Some y \<Rightarrow> Some (x + y)))"

definition jsub :: "jsnum \<Rightarrow> jsnum \<Rightarrow> jsnum" where
  "jsub a b = (case a of None \<Rightarrow> None | Some x \<Rightarrow> (case b of None \<Rightarrow> None | Some y \<Rightarrow> Some (x - y)))"

text \<open>\<^verbatim>\<open>a >= n\<close> and \<^verbatim>\<open>a > n\<close>: every comparison with \<^verbatim>\<open>NaN\<close> is false.\<close>

definition jge :: "jsnum \<Rightarrow> int \<Rightarrow> bool" where
  "jge a n = (case a of None \<Rightarrow> False | Some x \<Rightarrow> n \<le> x)"

definition jgt :: "jsnum \<Rightarrow> int \<Rightarrow> bool" where
  "jgt a n = (case a of None \<Rightarrow> False | Some x \<Rightarrow> n < x)"

text \<open>\<^verbatim>\<open>String(n)\<close> for an integer, and for \<^verbatim>\<open>NaN\<close>.\<close>

definition digit_char :: "nat \<Rightarrow> char" where
  "digit_char d = char_of (48 + d)"

fun decimal :: "nat \<Rightarrow> string" where
  "decimal n = (if n < 10 then [digit_char n] else decimal (n div 10) @ [digit_char (n mod 10)])"

declare decimal.simps [simp del]

definition jsString :: "jsnum \<Rightarrow> string" where
  "jsString a = (case a of None \<Rightarrow> ''NaN''
     | Some x \<Rightarrow> if x < 0 then CHR ''-'' # decimal (nat (- x)) else decimal (nat x))"

text \<open>
  \<^verbatim>\<open>parseInt(str)\<close> without a radix: leading white space is skipped, one sign is read,
  a prefix \<^verbatim>\<open>0x\<close> or \<^verbatim>\<open>0X\<close> selects radix 16, and the longest run of digits of the
  radix is the value; no digit at all gives \<^verbatim>\<open>NaN\<close>. White space is the ASCII white
  space (strings are byte strings here).
\<close>

definition is_space :: "char \<Rightarrow> bool" where
  "is_space c = (c \<in> set [CHR 0x09, CHR 0x0A, CHR 0x0B, CHR 0x0C, CHR 0x0D, CHR '' ''])"

definition radix_digit :: "nat \<Rightarrow> char \<Rightarrow> nat option" where
  "radix_digit r c =
     (let k = (of_char c :: nat);
          v = (if 48 \<le> k \<and> k \<le> 57 then Some (k - 48)
               else if 97 \<le> k \<and> k \<le> 122 then Some (k - 87)
               else if 65 \<le> k \<and> k \<le> 90 then Some (k - 55)
               else None)
      in case v of None \<Rightarrow> None | Some d \<Rightarrow> if d < r then Some d else None)"

fun radix_prefix :: "nat \<Rightarrow> string \<Rightarrow> nat list" where
  "radix_prefix r [] = []"
| "radix_prefix r (c # cs) =
     (case radix_digit r c of None \<Rightarrow> [] | Some d \<Rightarrow> d # radix_prefix r cs)"

definition radix_value :: "nat \<Rightarrow> nat list \<Rightarrow> nat" where
  "radix_value r ds = foldl (\<lambda>acc d. acc * r + d) 0 ds"

definition parseInt :: "string \<Rightarrow> jsnum" where
  "parseInt str =
     (let s = dropWhile is_space str;
          neg = (case s of [] \<Rightarrow> False | c # cs \<Rightarrow> c = CHR ''-'');
          s1 = (case s of [] \<Rightarrow> [] | c # cs \<Rightarrow> if c = CHR ''-'' \<or> c = CHR ''+'' then cs else s);
          hex = (case s1 of a # b # cs \<Rightarrow> a = CHR ''0'' \<and> (b = CHR ''x'' \<or> b = CHR ''X'') | _ \<Rightarrow> False);
          r = (if hex then 16 else 10);
          s2 = (if hex then drop 2 s1 else s1);
          ds = radix_prefix r s2
      in if ds = [] then None
         else Some ((if neg then - 1 else 1) * int (radix_value r ds)))"

text \<open>\<^verbatim>\<open>String.prototype.trim\<close> and \<^verbatim>\<open>split(',')\<close>.\<close>

definition trim :: "string \<Rightarrow> string" where
  "trim s = rev (dropWhile is_space (rev (dropWhile is_space s)))"

fun split_on :: "char \<Rightarrow> string \<Rightarrow> string list" where
  "split_on c [] = [[]]"
| "split_on c (x # xs) =
     (if x = c then [] # split_on c xs
      else (case split_on c xs of [] \<Rightarrow> [[x]] | w # ws \<Rightarrow> (x # w) # ws))"

text \<open>
  \<^verbatim>\<open>str.replace(pat, '')\<close> with a string pattern: the first occurrence of the pattern
  is removed.
\<close>

fun remove_first :: "string \<Rightarrow> string \<Rightarrow> string" where
  "remove_first pat [] = []"
| "remove_first pat (c # cs) =
     (if take (length pat) (c # cs) = pat then drop (length pat) (c # cs)
      else c # remove_first pat cs)"

text \<open>
  \<^verbatim>\<open>new Date().toISOString().split('T')[0]\<close>: the UTC calendar date of a time given in
  milliseconds since the epoch, as \<^verbatim>\<open>YYYY-MM-DD\<close> (years up to 9999). The day number
  is turned into a civil date by the usual era computation of the proleptic Gregorian
  calendar.
\<close>

definition pad :: "nat \<Rightarrow> string \<Rightarrow> string" where
  "pad w s = replicate (w - length s) (CHR ''0'') @ s"

definition isoDate :: "nat \<Rightarrow> string" where
  "isoDate ms =
     (let z = ms div 86400000 + 719468;
          era = z div 146097;
          doe = z mod 146097;
          yoe = (doe - doe div 1460 + doe div 36524 - doe div 146096) div 365;
          doy = doe - (365 * yoe + yoe div 4 - yoe div 100);
          mp = (5 * doy + 2) div 153;
          d = doy - (153 * mp + 2) div 5 + 1;
          m = (if mp < 10 then mp + 3 else mp - 9);
          y = yoe + era * 400 + (if m \<le> 2 then 1 else 0)
      in pad 4 (decimal y) @ ''-'' @ pad 2 (decimal m) @ ''-'' @ pad 2 (decimal d))"

section \<open>The key-value store\<close>

text \<open>
  \<^verbatim>\<open>env.VOTES\<close> is a Cloudflare KV namespace: a map from string keys to text values,
  each with an optional expiry. A value written with \<^verbatim>\<open>expirationTtl: t\<close> is gone
  \<open>t\<close> seconds after the write. Time is in milliseconds since the epoch, as
  \<^verbatim>\<open>Date.now()\<close> gives it, and one request sees one time. The store is read as
  strongly consistent.

  The worker writes two kinds of text: plain strings (a vote type, a decimal counter) and
  the output of \<^verbatim>\<open>JSON.stringify\<close> on an object. The second kind is kept as the object
  itself (\<open>Json\<close>), so that \<^verbatim>\<open>JSON.parse\<close> of a stored \<^verbatim>\<open>JSON.stringify\<close> is the
  identity; such a text starts with a brace, so it is truthy and \<^verbatim>\<open>parseInt\<close> of it is
  \<^verbatim>\<open>NaN\<close>.
\<close>

record summary =
  item_id :: string
  likes :: jsnum
  dislikes :: jsnum
  net_score :: jsnum
  total_votes :: jsnum

record meta =
  token_hash :: string
  m_vote_type :: string
  timestamp :: nat
  m_date :: string

datatype json = JSummary summary | JMeta meta

datatype kv_value = Text string | Json json

record entry =
  val :: kv_value
  expiry :: "nat option"

type_synonym kv = "(string \<times> entry) list"

definition live :: "nat \<Rightarrow> entry \<Rightarrow> bool" where
  "live now e = (case expiry e of None \<Rightarrow> True | Some t \<Rightarrow> now < t)"

definition kv_get :: "kv \<Rightarrow> nat \<Rightarrow> string \<Rightarrow> kv_value option" where
  "kv_get s now k =
     (case map_of s k of None \<Rightarrow> None
      | Some e \<Rightarrow> if live now e then Some (val e) else None)"

definition kv_put :: "kv \<Rightarrow> nat \<Rightarrow> string \<Rightarrow> kv_value \<Rightarrow> nat option \<Rightarrow> kv" where
  "kv_put s now k v ttl =
     AList.update k \<lparr>val = v, expiry = map_option (\<lambda>t. now + t * 1000) ttl\<rparr> s"

text \<open>
  \<^verbatim>\<open>list({prefix})\<close> returns the names of the live keys with the prefix, in
  lexicographic order, at most 1000 of them in one call; the worker never asks for a
  second page.
\<close>

definition has_prefix :: "string \<Rightarrow> string \<Rightarrow> bool" where
  "has_prefix pre k = (take (length pre) k = pre)"

definition kv_list :: "kv \<Rightarrow> nat \<Rightarrow> string \<Rightarrow> string list" where
  "kv_list s now pre =
     take 1000 (sort (filter (\<lambda>k. has_prefix pre k \<and> kv_get s now k \<noteq> None)
                        (remdups (map fst s))))"

text \<open>Truthiness of a value read from the store, and \<^verbatim>\<open>parseInt(x || '0')\<close>.\<close>

definition truthy :: "kv_value option \<Rightarrow> bool" where
  "truthy x = (case x of None \<Rightarrow> False | Some (Text t) \<Rightarrow> t \<noteq> [] | Some (Json j) \<Rightarrow> True)"

definition parseCount :: "kv_value option \<Rightarrow> jsnum" where
  "parseCount x =
     (case x of None \<Rightarrow> parseInt ''0''
      | Some (Text t) \<Rightarrow> if t = [] then parseInt ''0'' else parseInt t
      | Some (Json j) \<Rightarrow> None)"

section \<open>The worker's handlers\<close>

datatype response =
    Error nat string
  | VoteOk string jsnum jsnum jsnum
  | Counts kv_value bool
  | BatchOk "(string \<times> json) list" nat nat nat

text \<open>
  \<open>Error status msg\<close> is \<^verbatim>\<open>jsonResponse({error: msg}, status)\<close>; \<open>VoteOk\<close> carries
  \<^verbatim>\<open>item_id\<close>, \<^verbatim>\<open>likes\<close>, \<^verbatim>\<open>dislikes\<close> and \<^verbatim>\<open>net_score\<close> of the 200 response of
  \<^verbatim>\<open>handleVote\<close>; \<open>Counts body hit\<close> is the 200 response of \<^verbatim>\<open>getVoteCounts\<close> with
  its \<^verbatim>\<open>X-Cache\<close> header; \<open>BatchOk results count cache_hits cache_misses\<close> is the 200
  response of \<^verbatim>\<open>getBatchVoteCounts\<close>, the \<^verbatim>\<open>results\<close> object being the finite map
  \<open>map_of results\<close>.
\<close>

definition falsy :: "string option \<Rightarrow> bool" where
  "falsy x = (case x of None \<Rightarrow> True | Some t \<Rightarrow> t = [])"

definition str :: "string option \<Rightarrow> string" where
  "str x = (case x of None \<Rightarrow> [] | Some t \<Rightarrow> t)"

definition voteKeyOf :: "string \<Rightarrow> string \<Rightarrow> string" where
  "voteKeyOf token item = ''vote:'' @ token @ '':'' @ item"

definition rateLimitKeyOf :: "string \<Rightarrow> string \<Rightarrow> string" where
  "rateLimitKeyOf token today = ''rate:'' @ token @ '':'' @ today"

text \<open>
  \<^verbatim>\<open>handleVote\<close>, lines 79 to 145. The four fields of the request body are strings or
  absent. The result is the response and the store after the request.
\<close>

definition handleVote ::
  "kv \<Rightarrow> nat \<Rightarrow> string option \<Rightarrow> string option \<Rightarrow> string option \<Rightarrow> string option
     \<Rightarrow> response \<times> kv" where
  "handleVote s now item_id_f token_f vote_type_f date_f =
     (if falsy item_id_f \<or> falsy token_f \<or> falsy vote_type_f
      then (Error 400 ''Missing required fields'', s)
      else
        let item = str item_id_f; token = str token_f; vote_type = str vote_type_f in
        if vote_type \<notin> set [''like'', ''dislike'']
        then (Error 400 ''Invalid vote_type'', s)
        else
          let voteKey = voteKeyOf token item;
              existingVote = kv_get s now voteKey in
          if truthy existingVote
          then (Error 409 ''Already voted'', s)
          else
            let today = isoDate now;
                rateLimitKey = rateLimitKeyOf token today;
                voteCount = parseCount (kv_get s now rateLimitKey) in
            if jge voteCount 50
            then (Error 429 ''Rate limit exceeded'', s)
            else
              let s1 = kv_put s now voteKey (Text vote_type) (Some (60 * 60 * 24 * 30));
                  countKey = vote_type @ '':'' @ item;
                  currentCount = parseCount (kv_get s1 now countKey);
                  s2 = kv_put s1 now countKey (Text (jsString (jadd currentCount (Some 1)))) None;
                  s3 = kv_put s2 now rateLimitKey (Text (jsString (jadd voteCount (Some 1))))
                         (Some (60 * 60 * 24));
                  metaKey = ''meta:'' @ item @ '':'' @ jsString (Some (int now));
                  s4 = kv_put s3 now metaKey
                         (Json (JMeta \<lparr>token_hash = take 8 token, m_vote_type = vote_type,
                                       timestamp = now,
                                       m_date = (if falsy date_f then today else str date_f)\<rparr>))
                         (Some (60 * 60 * 24 * 30));
                  likes_now = parseCount (kv_get s4 now (''like:'' @ item));
                  dislikes_now = parseCount (kv_get s4 now (''dislike:'' @ item))
              in (VoteOk item likes_now dislikes_now (jsub likes_now dislikes_now), s4))"

text \<open>
  The summary of one item as lines 170 to 179 compute it from the two counters; lines 231
  to 240 and 277 to 286 repeat the same computation.
\<close>

definition summaryOf :: "kv \<Rightarrow> nat \<Rightarrow> string \<Rightarrow> summary" where
  "summaryOf s now itemId =
     (let likes_v = parseCount (kv_get s now (''like:'' @ itemId));
          dislikes_v = parseCount (kv_get s now (''dislike:'' @ itemId))
      in \<lparr>item_id = itemId, likes = likes_v, dislikes = dislikes_v,
          net_score = jsub likes_v dislikes_v, total_votes = jadd likes_v dislikes_v\<rparr>)"

definition cacheKeyOf :: "string \<Rightarrow> string" where
  "cacheKeyOf itemId = ''cache:votes:'' @ itemId"

text \<open>\<^verbatim>\<open>getVoteCounts\<close>, lines 150 to 194. A cache hit returns the stored text as it is.\<close>

definition getVoteCounts :: "kv \<Rightarrow> nat \<Rightarrow> string option \<Rightarrow> response \<times> kv" where
  "getVoteCounts s now itemId_f =
     (if falsy itemId_f then (Error 400 ''Missing item_id'', s)
      else
        let itemId = str itemId_f;
            cacheKey = cacheKeyOf itemId;
            cached = kv_get s now cacheKey in
        case (if truthy cached then cached else None) of
          Some c \<Rightarrow> (Counts c True, s)
        | None \<Rightarrow>
            let result = summaryOf s now itemId
            in (Counts (Json (JSummary result)) False,
                kv_put s now cacheKey (Json (JSummary result)) (Some 60)))"

text \<open>
  \<^verbatim>\<open>JSON.parse\<close> of a stored value. A plain text is not the JSON of an object:
  \<^verbatim>\<open>JSON.parse\<close> throws on it (or yields a bare scalar); that is the exception path,
  which \<^verbatim>\<open>fetch\<close> turns into the 500 response.
\<close>

definition jsonParse :: "kv_value \<Rightarrow> json option" where
  "jsonParse v = (case v of Text t \<Rightarrow> None | Json j \<Rightarrow> Some j)"

text \<open>
  \<^verbatim>\<open>getBatchVoteCounts\<close>, lines 199 to 264. \<^verbatim>\<open>itemIds.map\<close> starts every callback
  before any of them gets past its first \<^verbatim>\<open>await\<close>, so each callback issues its reads
  before any callback writes: every id is resolved against the store as the request
  found it (\<open>resolve\<close>), and the cache writes of the misses follow. The keys of
  \<^verbatim>\<open>results\<close> and \<^verbatim>\<open>count\<close> are the same under every other schedule. \<open>Throw\<close> is
  the exception of \<^verbatim>\<open>JSON.parse\<close>: it rejects \<^verbatim>\<open>Promise.all\<close>, while the other
  callbacks still run to their end.
\<close>

datatype outcome = Hit json | Miss summary | Throw

definition resolve :: "kv \<Rightarrow> nat \<Rightarrow> string \<Rightarrow> outcome" where
  "resolve s now trimmedId =
     (let cacheKey = cacheKeyOf trimmedId;
          cached = kv_get s now cacheKey in
      case (if truthy cached then cached else None) of
        Some c \<Rightarrow> (case jsonParse c of None \<Rightarrow> Throw | Some j \<Rightarrow> Hit j)
      | None \<Rightarrow> Miss (summaryOf s now trimmedId))"

record batch_state =
  store :: kv
  results :: "(string \<times> json) list"
  cacheHits :: nat
  cacheMisses :: nat
  thrown :: bool

fun batch_loop :: "kv \<Rightarrow> nat \<Rightarrow> string list \<Rightarrow> batch_state \<Rightarrow> batch_state" where
  "batch_loop s0 now [] b = b"
| "batch_loop s0 now (itemId # rest) b =
     (let trimmedId = trim itemId in
      case resolve s0 now trimmedId of
        Hit j \<Rightarrow>
          batch_loop s0 now rest
            (b\<lparr>results := AList.update trimmedId j (results b),
               cacheHits := cacheHits b + 1\<rparr>)
      | Miss result \<Rightarrow>
          batch_loop s0 now rest
            (b\<lparr>results := AList.update trimmedId (JSummary result) (results b),
               cacheMisses := cacheMisses b + 1,
               store := kv_put (store b) now (cacheKeyOf trimmedId) (Json (JSummary result))
                          (Some 60)\<rparr>)
      | Throw \<Rightarrow> batch_loop s0 now rest (b\<lparr>thrown := True\<rparr>))"

definition parseIds :: "string \<Rightarrow> string list" where
  "parseIds idsParam = filter (\<lambda>id. length (trim id) > 0) (split_on (CHR '','') idsParam)"

definition getBatchVoteCounts :: "kv \<Rightarrow> nat \<Rightarrow> string option \<Rightarrow> response \<times> kv" where
  "getBatchVoteCounts s now idsParam_f =
     (if falsy idsParam_f then (Error 400 ''Missing ids parameter'', s)
      else
        let itemIds = parseIds (str idsParam_f) in
        if length itemIds = 0 then (Error 400 ''No valid item IDs provided'', s)
        else if length itemIds > 200 then (Error 400 ''Too many IDs (max 200)'', s)
        else
          let b = batch_loop s now itemIds
                    \<lparr>store = s, results = [], cacheHits = 0, cacheMisses = 0, thrown = False\<rparr>
          in if thrown b then (Error 500 ''Internal server error'', store b)
             else (BatchOk (results b) (length itemIds) (cacheHits b) (cacheMisses b), store b))"

text \<open>
  \<^verbatim>\<open>items.sort((a, b) => b.net_score - a.net_score)\<close>. \<^verbatim>\<open>Array.prototype.sort\<close> is
  stable and puts \<open>a\<close> after \<open>b\<close> when the comparator is positive; a comparator value
  \<^verbatim>\<open>NaN\<close> counts as 0. With a consistent comparator every stable sort gives the result
  of this insertion sort.
\<close>

definition compareItems :: "summary \<Rightarrow> summary \<Rightarrow> jsnum" where
  "compareItems a b = jsub (net_score b) (net_score a)"

fun sort_insert :: "summary \<Rightarrow> summary list \<Rightarrow> summary list" where
  "sort_insert x [] = [x]"
| "sort_insert x (y # ys) =
     (if jgt (compareItems x y) 0 then y # sort_insert x ys else x # y # ys)"

definition js_sort :: "summary list \<Rightarrow> summary list" where
  "js_sort xs = foldr sort_insert xs []"

text \<open>\<^verbatim>\<open>getRankings\<close>, lines 269 to 297; \<open>generated_at\<close> is kept as the time itself.\<close>

record rankings =
  items :: "summary list"
  total_items :: nat
  generated_at :: nat

definition getRankings :: "kv \<Rightarrow> nat \<Rightarrow> rankings" where
  "getRankings s now =
     (let list = kv_list s now ''like:'';
          collected = map (\<lambda>name. summaryOf s now (remove_first ''like:'' name)) list;
          sorted_items = js_sort collected
      in \<lparr>items = sorted_items, total_items = length sorted_items, generated_at = now\<rparr>)"

text \<open>
  \<^verbatim>\<open>Math.round((l / t) * 100)\<close> in IEEE 754 double precision, for integers below
  \<open>2^53\<close> and \<open>t > 0\<close>. A positive double is a pair \<open>(m, e)\<close> standing for \<open>m * 2^e\<close>.
  \<open>nearest_double a b\<close> is the double nearest to the rational \<open>a / b\<close> (53 significant
  bits, ties to the even mantissa); the quotient of the worker and its product with 100
  are both far from the subnormal and the overflow range. \<^verbatim>\<open>Math.round\<close> is
  \<open>\<lfloor>x + 1/2\<rfloor>\<close>, computed exactly.
\<close>

fun bit_length :: "nat \<Rightarrow> nat" where
  "bit_length n = (if n = 0 then 0 else Suc (bit_length (n div 2)))"

declare bit_length.simps [simp del]

definition round_half_even :: "nat \<Rightarrow> nat \<Rightarrow> nat" where
  "round_half_even a b =
     (let q = a div b; r = a mod b
      in if 2 * r < b then q else if b < 2 * r then q + 1 else if even q then q else q + 1)"

definition nearest_double :: "nat \<Rightarrow> nat \<Rightarrow> nat \<times> int" where
  "nearest_double a b =
     (let e1 = int (bit_length a) - int (bit_length b) - 53;
          e = (if a * 2 ^ nat (- e1) < b * 2 ^ nat e1 * 2 ^ 53 then e1 else e1 + 1)
      in (round_half_even (a * 2 ^ nat (- e)) (b * 2 ^ nat e), e))"

definition js_percentage :: "int \<Rightarrow> int \<Rightarrow> int" where
  "js_percentage l t =
     (if l = 0 then 0
      else
        let (m1, e1) = nearest_double (nat \<bar>l\<bar>) (nat t);
            (m2, e2) = nearest_double (m1 * 100) 1;
            e = e1 + e2;
            sm = (if l < 0 then - int m2 else int m2)
        in if 0 \<le> e then sm * 2 ^ nat e
           else (2 * sm + 2 ^ nat (- e)) div 2 ^ (nat (- e) + 1))"

text \<open>\<^verbatim>\<open>getStats\<close>, lines 302 to 329.\<close>

record stats =
  total_likes :: jsnum
  total_dislikes :: jsnum
  st_total_votes :: jsnum
  st_total_items :: nat
  like_percentage :: jsnum
  st_generated_at :: nat

fun stats_loop :: "kv \<Rightarrow> nat \<Rightarrow> string list \<Rightarrow> jsnum \<times> jsnum \<times> nat \<Rightarrow> jsnum \<times> jsnum \<times> nat" where
  "stats_loop s now [] acc = acc"
| "stats_loop s now (name # rest) (totalLikes, totalDislikes, totalItems) =
     (let itemId = remove_first ''like:'' name;
          likes_v = parseCount (kv_get s now (''like:'' @ itemId));
          dislikes_v = parseCount (kv_get s now (''dislike:'' @ itemId))
      in stats_loop s now rest
           (jadd totalLikes likes_v, jadd totalDislikes dislikes_v, totalItems + 1))"

definition getStats :: "kv \<Rightarrow> nat \<Rightarrow> stats" where
  "getStats s now =
     (case stats_loop s now (kv_list s now ''like:'') (Some 0, Some 0, 0) of
        (totalLikes, totalDislikes, totalItems) \<Rightarrow>
          \<lparr>total_likes = totalLikes, total_dislikes = totalDislikes,
           st_total_votes = jadd totalLikes totalDislikes,
           st_total_items = totalItems,
           like_percentage =
             (if jgt (jadd totalLikes totalDislikes) 0
              then (case (totalLikes, jadd totalLikes totalDislikes) of
                      (Some l, Some t) \<Rightarrow> Some (js_percentage l t) | _ \<Rightarrow> None)
              else Some 0),
           st_generated_at = now\<rparr>)"

section \<open>Sequences of requests\<close>

text \<open>
  Requests reach the worker one at a time (no two requests overlap); each comes with the
  time at which it is served.
\<close>

datatype call =
    Vote "string option" "string option" "string option" "string option"
  | GetVotes "string option"
  | GetBatch "string option"
  | GetRankings
  | GetStats

datatype reply = Resp response | RankingsResp rankings | StatsResp stats

fun exec :: "kv \<Rightarrow> nat \<Rightarrow> call \<Rightarrow> reply \<times> kv" where
  "exec s now (Vote item_id_f token_f vote_type_f date_f) =
     (case handleVote s now item_id_f token_f vote_type_f date_f of (r, s') \<Rightarrow> (Resp r, s'))"
| "exec s now (GetVotes itemId_f) =
     (case getVoteCounts s now itemId_f of (r, s') \<Rightarrow> (Resp r, s'))"
| "exec s now (GetBatch idsParam_f) =
     (case getBatchVoteCounts s now idsParam_f of (r, s') \<Rightarrow> (Resp r, s'))"
| "exec s now GetRankings = (RankingsResp (getRankings s now), s)"
| "exec s now GetStats = (StatsResp (getStats s now), s)"

fun run :: "kv \<Rightarrow> (nat \<times> call) list \<Rightarrow> kv" where
  "run s [] = s"
| "run s ((now, c) # cs) = run (snd (exec s now c)) cs"

text \<open>
  The number of votes of type \<open>v\<close> for item \<open>i\<close> that a sequence of requests gets
  accepted (answered with 200), starting from store \<open>s\<close>.
\<close>

definition accepted_vote :: "kv \<Rightarrow> nat \<Rightarrow> call \<Rightarrow> string \<Rightarrow> string \<Rightarrow> bool" where
  "accepted_vote s now c v i =
     (case c of
        Vote item_id_f token_f vote_type_f date_f \<Rightarrow>
          str item_id_f = i \<and> str vote_type_f = v \<and>
          (case fst (handleVote s now item_id_f token_f vote_type_f date_f) of
             VoteOk a b c d \<Rightarrow> True | _ \<Rightarrow> False)
      | _ \<Rightarrow> False)"

fun accepted :: "kv \<Rightarrow> (nat \<times> call) list \<Rightarrow> string \<Rightarrow> string \<Rightarrow> nat" where
  "accepted s [] v i = 0"
| "accepted s ((now, c) # cs) v i =
     (if accepted_vote s now c v i then 1 else 0) + accepted (snd (exec s now c)) cs v i"

section \<open>Notions used in the statements and proofs\<close>


text \<open>The decimal digits, as characters.\<close>

definition is_digit :: "char \<Rightarrow> bool" where
  "is_digit c = (\<exists>d<10. c = digit_char d)"

text \<open>
  The condition under which \<^verbatim>\<open>handleVote\<close> reaches its writes: the request passes the
  two validations, no live vote record exists for the pair, and the rate counter is
  below 50.
\<close>

definition vote_ok :: "kv \<Rightarrow> nat \<Rightarrow> string option \<Rightarrow> string option \<Rightarrow> string option \<Rightarrow> bool" where
  "vote_ok s now item_id_f token_f vote_type_f =
     (\<not> falsy item_id_f \<and> \<not> falsy token_f \<and> str vote_type_f \<in> set [''like'', ''dislike'']
      \<and> \<not> truthy (kv_get s now (voteKeyOf (str token_f) (str item_id_f)))
      \<and> \<not> jge (parseCount (kv_get s now (rateLimitKeyOf (str token_f) (isoDate now)))) 50)"

text \<open>A vote is accepted when its response is the 200 response.\<close>

definition is_ok :: "response \<Rightarrow> bool" where
  "is_ok r = (case r of VoteOk a b c d \<Rightarrow> True | _ \<Rightarrow> False)"

text \<open>
  The contract of a single-item summary: it names its item, and \<^verbatim>\<open>net_score\<close> and
  \<^verbatim>\<open>total_votes\<close> are the difference and the sum of its two counts.
\<close>

definition valid_summary :: "string \<Rightarrow> summary \<Rightarrow> bool" where
  "valid_summary itemId x =
     (item_id x = itemId \<and> net_score x = jsub (likes x) (dislikes x)
      \<and> total_votes x = jadd (likes x) (dislikes x))"

text \<open>
  \<open>cache_writes s s'\<close>: the store \<open>s'\<close> differs from \<open>s\<close> at most in cache entries, each
  new one holding a valid summary of its item.
\<close>

definition cache_writes :: "kv \<Rightarrow> kv \<Rightarrow> bool" where
  "cache_writes s s' =
     (\<forall>k. map_of s' k = map_of s k
          \<or> (\<exists>itemId x t. k = cacheKeyOf itemId
                \<and> map_of s' k = Some \<lparr>val = Json (JSummary x), expiry = Some t\<rparr>
                \<and> valid_summary itemId x))"


text \<open>
  \<open>counter_is s k n\<close>: key \<open>k\<close> is absent and \<open>n = 0\<close>, or it holds the decimal text of
  \<open>n > 0\<close> and never expires.
\<close>

definition counter_is :: "kv \<Rightarrow> string \<Rightarrow> nat \<Rightarrow> bool" where
  "counter_is s k n =
     (case map_of s k of None \<Rightarrow> n = 0
      | Some e \<Rightarrow> 0 < n \<and> val e = Text (decimal n) \<and> expiry e = None)"

text \<open>
  The result of \<^verbatim>\<open>read(i)\<close> as the specification words it, for \<open>n\<close> likes and \<open>m\<close>
  dislikes: \<^verbatim>\<open>{likes = n, dislikes = m, netScore = n - m, totalVotes = n + m}\<close>.
\<close>

definition spec_read :: "nat \<Rightarrow> nat \<Rightarrow> string \<Rightarrow> summary" where
  "spec_read n m i =
     \<lparr>item_id = i, likes = Some (int n), dislikes = Some (int m),
      net_score = Some (int n - int m), total_votes = Some (int n + int m)\<rparr>"

text \<open>
  A sequence of requests in which item \<^verbatim>\<open>a\<close> gets one like and one dislike accepted;
  the dislike of token \<^verbatim>\<open>t1\<close>, who has voted already, is rejected.
\<close>

definition two_votes :: "(nat \<times> call) list" where
  "two_votes =
     [(0, Vote (Some ''a'') (Some ''t1'') (Some ''like'') None),
      (0, GetVotes (Some ''b'')),
      (0, Vote (Some ''a'') (Some ''t1'') (Some ''dislike'') None),
      (0, Vote (Some ''a'') (Some ''t2'') (Some ''dislike'') None)]"

text \<open>The net score of a summary as an integer (0 for \<^verbatim>\<open>NaN\<close>).\<close>

definition net_of :: "summary \<Rightarrow> int" where
  "net_of x = (case net_score x of None \<Rightarrow> 0 | Some a \<Rightarrow> a)"

text \<open>
  A sequence of requests that gives item \<^verbatim>\<open>a\<close> one like, item \<^verbatim>\<open>b\<close> two likes and
  item \<^verbatim>\<open>c\<close> one dislike.
\<close>

definition ranked_votes :: "(nat \<times> call) list" where
  "ranked_votes =
     [(0, Vote (Some ''a'') (Some ''t1'') (Some ''like'') None),
      (0, Vote (Some ''b'') (Some ''t1'') (Some ''like'') None),
      (0, Vote (Some ''b'') (Some ''t2'') (Some ''like'') None),
      (0, Vote (Some ''c'') (Some ''t1'') (Some ''dislike'') None)]"

text \<open>
  A sequence of requests in which item \<^verbatim>\<open>a\<close> gets three likes and one dislike.
\<close>

definition four_votes :: "(nat \<times> call) list" where
  "four_votes =
     [(0, Vote (Some ''a'') (Some ''t1'') (Some ''like'') None),
      (0, Vote (Some ''a'') (Some ''t2'') (Some ''like'') None),
      (0, Vote (Some ''a'') (Some ''t3'') (Some ''dislike'') None),
      (0, Vote (Some ''a'') (Some ''t4'') (Some ''like'') None)]"

section \<open>Concrete stores used as examples\<close>

section \<open>Basic facts about the store\<close>

lemma map_of_kv_put:
  "map_of (kv_put s now k v ttl) =
     (map_of s)(k \<mapsto> \<lparr>val = v, expiry = map_option (\<lambda>t. now + t * 1000) ttl\<rparr>)"
  by (simp add: kv_put_def update_conv')

lemma kv_get_put_other:
  "k' \<noteq> k \<Longrightarrow> kv_get (kv_put s now k v ttl) now' k' = kv_get s now' k'"
  by (simp add: kv_get_def map_of_kv_put)

section \<open>The rate limit\<close>



lemma of_char_digit_char: "d < 10 \<Longrightarrow> (of_char (digit_char d) :: nat) = 48 + d"
  by (simp add: digit_char_def)

lemma radix_digit_digit_char: "d < 10 \<Longrightarrow> radix_digit 10 (digit_char d) = Some d"
  by (simp add: radix_digit_def of_char_digit_char Let_def)

lemma digit_char_neq:
  assumes "d < 10" and "(of_char c :: nat) < 48"
  shows "digit_char d \<noteq> c"
proof
  assume "digit_char d = c"
  then have "(of_char (digit_char d) :: nat) = of_char c" by simp
  with assms show False by (simp add: of_char_digit_char)
qed

lemma digit_char_neq_x:
  assumes "d < 10"
  shows "digit_char d \<noteq> CHR ''x''" and "digit_char d \<noteq> CHR ''X''"
proof -
  have k: "(of_char (digit_char d) :: nat) = 48 + d" using assms by (rule of_char_digit_char)
  show "digit_char d \<noteq> CHR ''x''"
  proof
    assume "digit_char d = CHR ''x''"
    then have "(of_char (digit_char d) :: nat) = of_char (CHR ''x'')" by simp
    with k assms show False by simp
  qed
  show "digit_char d \<noteq> CHR ''X''"
  proof
    assume "digit_char d = CHR ''X''"
    then have "(of_char (digit_char d) :: nat) = of_char (CHR ''X'')" by simp
    with k assms show False by simp
  qed
qed

lemma digit_char_not_space: "d < 10 \<Longrightarrow> \<not> is_space (digit_char d)"
  by (auto simp: is_space_def dest: digit_char_neq [THEN notE, rotated -1])

lemma decimal_digits: "\<forall>c \<in> set (decimal n). is_digit c"
proof (induction n rule: decimal.induct)
  case (1 n)
  show ?case
  proof (cases "n < 10")
    case True
    then show ?thesis by (auto simp: decimal.simps [of n] is_digit_def)
  next
    case False
    have "n mod 10 < 10" by simp
    then have "is_digit (digit_char (n mod 10))" unfolding is_digit_def by blast
    with False 1 show ?thesis by (simp add: decimal.simps [of n])
  qed
qed

lemma decimal_nonempty: "decimal n \<noteq> []"
  by (subst decimal.simps) simp

lemma radix_prefix_append:
  "\<forall>c \<in> set xs. is_digit c \<Longrightarrow>
     radix_prefix 10 (xs @ ys) = radix_prefix 10 xs @ radix_prefix 10 ys"
  by (induction xs) (auto simp: is_digit_def radix_digit_digit_char)

lemma radix_value_snoc: "radix_value r (ds @ [d]) = radix_value r ds * r + d"
  by (simp add: radix_value_def)

lemma radix_value_decimal: "radix_value 10 (radix_prefix 10 (decimal n)) = n"
proof (induction n rule: decimal.induct)
  case (1 n)
  show ?case
  proof (cases "n < 10")
    case True
    then show ?thesis
      by (simp add: decimal.simps [of n] radix_digit_digit_char radix_value_def)
  next
    case False
    have m: "n mod 10 < 10" by simp
    have "radix_prefix 10 (decimal n)
            = radix_prefix 10 (decimal (n div 10)) @ [n mod 10]"
      using False m
      by (simp add: decimal.simps [of n] radix_prefix_append decimal_digits
            radix_digit_digit_char)
    with 1 False show ?thesis by (simp add: radix_value_snoc)
  qed
qed

lemma radix_prefix_decimal_nonempty: "radix_prefix 10 (decimal n) \<noteq> []"
proof -
  obtain c cs where d: "decimal n = c # cs" using decimal_nonempty [of n] by (cases "decimal n") auto
  then have "is_digit c" using decimal_digits [of n] by simp
  with d show ?thesis by (auto simp: is_digit_def radix_digit_digit_char)
qed

lemma parseInt_decimal: "parseInt (decimal n) = Some (int n)"
proof -
  obtain c cs where d: "decimal n = c # cs" using decimal_nonempty [of n] by (cases "decimal n") auto
  have dg: "\<forall>x \<in> set (c # cs). is_digit x" using decimal_digits [of n] d by simp
  then obtain k where k: "k < 10" "c = digit_char k" by (auto simp: is_digit_def)
  have c1: "\<not> is_space c" "c \<noteq> CHR ''-''" "c \<noteq> CHR ''+''"
    using k by (simp_all add: digit_char_not_space digit_char_neq)
  have nohex: "\<not> (case c # cs of a # b # r \<Rightarrow> a = CHR ''0'' \<and> (b = CHR ''x'' \<or> b = CHR ''X'') | _ \<Rightarrow> False)"
  proof (cases cs)
    case Nil
    then show ?thesis by simp
  next
    case (Cons b r)
    with dg obtain j where "j < 10" "b = digit_char j" by (auto simp: is_digit_def)
    with Cons show ?thesis by (simp add: digit_char_neq_x)
  qed
  show ?thesis
    using c1 nohex radix_prefix_decimal_nonempty [of n] radix_value_decimal [of n]
    unfolding parseInt_def d by (simp add: Let_def)
qed

lemma jsString_succ: "jsString (jadd (Some (int n)) (Some 1)) = decimal (Suc n)"
  by (simp add: jsString_def jadd_def nat_add_distrib)

lemma parseCount_decimal: "parseCount (Some (Text (decimal n))) = Some (int n)"
  by (simp add: parseCount_def decimal_nonempty parseInt_decimal)

lemma parseCount_None: "parseCount None = Some 0"
  by (simp add: parseCount_def parseInt_def radix_digit_def radix_value_def Let_def is_space_def)

lemma falsy_iff: "falsy x \<longleftrightarrow> str x = []"
  by (simp add: falsy_def str_def split: option.splits)

lemma handleVote_rejected:
  "\<not> vote_ok s now i t v \<Longrightarrow> \<exists>code msg. handleVote s now i t v d = (Error code msg, s)"
  by (auto simp: handleVote_def vote_ok_def Let_def)

lemma handleVote_accepted:
  assumes "vote_ok s now i t v"
  shows "is_ok (fst (handleVote s now i t v d))"
    and "map_of (snd (handleVote s now i t v d)) =
      (map_of s)
        (voteKeyOf (str t) (str i) \<mapsto> \<lparr>val = Text (str v), expiry = Some (now + 2592000000)\<rparr>,
         str v @ '':'' @ str i \<mapsto>
           \<lparr>val = Text (jsString (jadd (parseCount (kv_get s now (str v @ '':'' @ str i))) (Some 1))),
            expiry = None\<rparr>,
         rateLimitKeyOf (str t) (isoDate now) \<mapsto>
           \<lparr>val = Text (jsString (jadd (parseCount (kv_get s now (rateLimitKeyOf (str t) (isoDate now)))) (Some 1))),
            expiry = Some (now + 86400000)\<rparr>,
         ''meta:'' @ str i @ '':'' @ jsString (Some (int now)) \<mapsto>
           \<lparr>val = Json (JMeta \<lparr>token_hash = take 8 (str t), m_vote_type = str v, timestamp = now,
                   m_date = (if falsy d then isoDate now else str d)\<rparr>),
            expiry = Some (now + 2592000000)\<rparr>)"
proof -
  have ne: "str v @ '':'' @ str i \<noteq> voteKeyOf (str t) (str i)"
    using assms by (auto simp: vote_ok_def voteKeyOf_def)
  show "is_ok (fst (handleVote s now i t v d))"
    using assms by (auto simp: handleVote_def vote_ok_def Let_def is_ok_def falsy_iff)
  show "map_of (snd (handleVote s now i t v d)) = (map_of s)
        (voteKeyOf (str t) (str i) \<mapsto> \<lparr>val = Text (str v), expiry = Some (now + 2592000000)\<rparr>,
         str v @ '':'' @ str i \<mapsto>
           \<lparr>val = Text (jsString (jadd (parseCount (kv_get s now (str v @ '':'' @ str i))) (Some 1))),
            expiry = None\<rparr>,
         rateLimitKeyOf (str t) (isoDate now) \<mapsto>
           \<lparr>val = Text (jsString (jadd (parseCount (kv_get s now (rateLimitKeyOf (str t) (isoDate now)))) (Some 1))),
            expiry = Some (now + 86400000)\<rparr>,
         ''meta:'' @ str i @ '':'' @ jsString (Some (int now)) \<mapsto>
           \<lparr>val = Json (JMeta \<lparr>token_hash = take 8 (str t), m_vote_type = str v, timestamp = now,
                   m_date = (if falsy d then isoDate now else str d)\<rparr>),
            expiry = Some (now + 2592000000)\<rparr>)"
    using assms ne
    by (auto simp: handleVote_def vote_ok_def Let_def map_of_kv_put kv_get_put_other falsy_iff)
qed

lemma valid_summaryOf: "valid_summary itemId (summaryOf s now itemId)"
  by (simp add: valid_summary_def summaryOf_def Let_def)

lemma cache_writes_refl: "cache_writes s s"
  by (simp add: cache_writes_def)

lemma cache_writes_trans: "cache_writes s s' \<Longrightarrow> cache_writes s' s'' \<Longrightarrow> cache_writes s s''"
  unfolding cache_writes_def by metis

lemma cache_writes_put:
  "valid_summary itemId x \<Longrightarrow>
     cache_writes s (kv_put s now (cacheKeyOf itemId) (Json (JSummary x)) (Some ttl))"
  unfolding cache_writes_def by (auto simp: map_of_kv_put)

lemma getVoteCounts_cache_writes: "cache_writes s (snd (getVoteCounts s now itemId_f))"
  by (auto simp: getVoteCounts_def Let_def cache_writes_refl cache_writes_put valid_summaryOf
           split: option.splits)

lemma batch_loop_cache_writes:
  "cache_writes s (store b) \<Longrightarrow> cache_writes s (store (batch_loop s0 now ids b))"
proof (induction ids arbitrary: b)
  case Nil
  then show ?case by simp
next
  case (Cons itemId rest)
  show ?case
  proof (cases "resolve s0 now (trim itemId)")
    case (Hit j)
    then show ?thesis using Cons.prems by (simp add: Cons.IH Let_def)
  next
    case (Miss r)
    then have "valid_summary (trim itemId) r"
      by (auto simp: resolve_def Let_def valid_summaryOf split: option.splits)
    then have "cache_writes s
        (kv_put (store b) now (cacheKeyOf (trim itemId)) (Json (JSummary r)) (Some 60))"
      by (rule cache_writes_trans [OF Cons.prems cache_writes_put])
    with Miss show ?thesis by (simp add: Cons.IH Let_def)
  next
    case Throw
    then show ?thesis using Cons.prems by (simp add: Cons.IH Let_def)
  qed
qed

lemma getBatchVoteCounts_cache_writes: "cache_writes s (snd (getBatchVoteCounts s now idsParam_f))"
  by (simp add: getBatchVoteCounts_def Let_def cache_writes_refl batch_loop_cache_writes)

lemma exec_effect:
  "cache_writes s (snd (exec s now c))
   \<or> (\<exists>i t v d. c = Vote i t v d \<and> vote_ok s now i t v)"
proof (cases c)
  case (Vote i t v d)
  show ?thesis
  proof (cases "vote_ok s now i t v")
    case True
    with Vote show ?thesis by blast
  next
    case False
    from handleVote_rejected [OF this, of d] Vote show ?thesis
      by (auto simp: cache_writes_refl)
  qed
next
  case (GetVotes x)
  then show ?thesis using getVoteCounts_cache_writes [of s now x] by (auto split: prod.splits)
next
  case (GetBatch x)
  then show ?thesis using getBatchVoteCounts_cache_writes [of s now x] by (auto split: prod.splits)
qed (simp_all add: cache_writes_refl)

lemma exec_cases:
  "(\<exists>i t v d. c = Vote i t v d \<and> vote_ok s now i t v)
   \<or> (cache_writes s (snd (exec s now c)) \<and> (\<forall>v i. \<not> accepted_vote s now c v i))"
proof (cases c)
  case (Vote i t v d)
  show ?thesis
  proof (cases "vote_ok s now i t v")
    case True
    with Vote show ?thesis by blast
  next
    case False
    from handleVote_rejected [OF this, of d] Vote show ?thesis
      by (auto simp: cache_writes_refl accepted_vote_def)
  qed
next
  case (GetVotes x)
  then show ?thesis using getVoteCounts_cache_writes [of s now x]
    by (auto simp: accepted_vote_def split: prod.splits)
next
  case (GetBatch x)
  then show ?thesis using getBatchVoteCounts_cache_writes [of s now x]
    by (auto simp: accepted_vote_def split: prod.splits)
qed (simp_all add: cache_writes_refl accepted_vote_def)

lemma accepted_vote_ok:
  "vote_ok s now i t v \<Longrightarrow> accepted_vote s now (Vote i t v d) v' i' \<longleftrightarrow> str i = i' \<and> str v = v'"
  using handleVote_accepted(1) [of s now i t v d]
  by (auto simp: accepted_vote_def is_ok_def split: response.splits)

lemma is_ok_vote_ok: "is_ok (fst (handleVote s now i t v d)) \<Longrightarrow> vote_ok s now i t v"
proof (rule ccontr)
  assume a: "is_ok (fst (handleVote s now i t v d))" and "\<not> vote_ok s now i t v"
  from handleVote_rejected [OF this(2), of d] obtain code msg
    where "handleVote s now i t v d = (Error code msg, s)" by blast
  with a show False by (simp add: is_ok_def)
qed

subsection \<open>vote records\<close>









subsection \<open>counters\<close>

lemma counter_is_parse: "counter_is s k n \<Longrightarrow> parseCount (kv_get s now k) = Some (int n)"
  by (auto simp: counter_is_def kv_get_def live_def parseCount_None parseCount_decimal
           split: option.splits)

lemma cache_writes_count_key:
  "cache_writes s s' \<Longrightarrow> v \<in> {''like'', ''dislike''} \<Longrightarrow>
     map_of s' (v @ '':'' @ i) = map_of s (v @ '':'' @ i)"
  unfolding cache_writes_def by (auto simp: cacheKeyOf_def)

lemma count_key_neq:
  "w \<in> {''like'', ''dislike''} \<Longrightarrow> w @ '':'' @ j \<noteq> voteKeyOf t i"
  "w \<in> {''like'', ''dislike''} \<Longrightarrow> w @ '':'' @ j \<noteq> rateLimitKeyOf t d"
  "w \<in> {''like'', ''dislike''} \<Longrightarrow> w @ '':'' @ j \<noteq> ''meta:'' @ x"
  "w \<in> {''like'', ''dislike''} \<Longrightarrow> w @ '':'' @ j \<noteq> cacheKeyOf x"
  by (auto simp: voteKeyOf_def rateLimitKeyOf_def cacheKeyOf_def)

lemma count_key_eq:
  "w \<in> {''like'', ''dislike''} \<Longrightarrow> w' \<in> {''like'', ''dislike''} \<Longrightarrow>
     w' @ '':'' @ j' = w @ '':'' @ j \<longleftrightarrow> w' = w \<and> j' = j"
  by auto

lemma handleVote_accepted_count_key:
  assumes "vote_ok s now i t v" and "w \<in> {''like'', ''dislike''}"
  shows "map_of (snd (handleVote s now i t v d)) (w @ '':'' @ j) =
           (if str v = w \<and> str i = j
            then Some \<lparr>val = Text (jsString (jadd (parseCount (kv_get s now (w @ '':'' @ j))) (Some 1))),
                       expiry = None\<rparr>
            else map_of s (w @ '':'' @ j))"
proof -
  from assms(1) have v: "str v \<in> {''like'', ''dislike''}" by (simp add: vote_ok_def)
  note ne = count_key_neq [OF assms(2), of j]
  have e: "str v @ '':'' @ str i = w @ '':'' @ j \<longleftrightarrow> str v = w \<and> str i = j"
    by (rule count_key_eq [OF assms(2) v])
  show ?thesis
  proof (cases "str v = w \<and> str i = j")
    case True
    then show ?thesis
      unfolding handleVote_accepted(2) [OF assms(1)]
      using ne ne [symmetric] by (simp del: append.simps)
  next
    case False
    then have f: "(str v = w \<and> str i = j) = False" by simp
    from e f have k: "str v @ '':'' @ str i \<noteq> w @ '':'' @ j" by simp
    show ?thesis
      unfolding handleVote_accepted(2) [OF assms(1)] f
      using k k [symmetric] ne ne [symmetric] by (simp del: append.simps)
  qed
qed

lemma counter_is_exec:
  assumes "counter_is s (v @ '':'' @ i) n" and v: "v \<in> {''like'', ''dislike''}"
  shows "counter_is (snd (exec s now c)) (v @ '':'' @ i)
           (n + (if accepted_vote s now c v i then 1 else 0))"
  using exec_cases [of c s now]
proof (elim disjE exE conjE)
  fix i' t' v' d'
  assume c: "c = Vote i' t' v' d'" and ok: "vote_ok s now i' t' v'"
  have s': "snd (exec s now c) = snd (handleVote s now i' t' v' d')"
    using c by (simp split: prod.splits)
  have acc: "accepted_vote s now c v i \<longleftrightarrow> str v' = v \<and> str i' = i"
    unfolding c accepted_vote_ok [OF ok] by blast
  note m = handleVote_accepted_count_key [OF ok v, of d' i]
  show ?thesis
  proof (cases "str v' = v \<and> str i' = i")
    case True
    have "jsString (jadd (parseCount (kv_get s now (v @ '':'' @ i))) (Some 1)) = decimal (Suc n)"
      unfolding counter_is_parse [OF assms(1)] by (rule jsString_succ)
    with True m acc show ?thesis unfolding s' by (simp add: counter_is_def)
  next
    case False
    with m have "map_of (snd (handleVote s now i' t' v' d')) (v @ '':'' @ i) = map_of s (v @ '':'' @ i)"
      by auto
    moreover from False acc have "\<not> accepted_vote s now c v i" by simp
    ultimately show ?thesis using assms(1) unfolding s' by (simp add: counter_is_def)
  qed
next
  assume "cache_writes s (snd (exec s now c))" and "\<forall>v i. \<not> accepted_vote s now c v i"
  with cache_writes_count_key [OF this(1) v, of i] assms(1) show ?thesis
    by (simp add: counter_is_def)
qed

lemma counter_is_run:
  "counter_is s (v @ '':'' @ i) n \<Longrightarrow> v \<in> {''like'', ''dislike''} \<Longrightarrow>
     counter_is (run s tr) (v @ '':'' @ i) (n + accepted s tr v i)"
proof (induction tr arbitrary: s n)
  case Nil
  then show ?case by simp
next
  case (Cons a tr)
  obtain now c where a: "a = (now, c)" by (cases a)
  from Cons.prems
  have "counter_is (snd (exec s now c)) (v @ '':'' @ i)
          (n + (if accepted_vote s now c v i then 1 else 0))"
    by (rule counter_is_exec)
  from Cons.IH [OF this Cons.prems(2)] show ?case using a by (simp add: add.assoc)
qed

lemma counter_is_empty: "counter_is [] k 0"
  by (simp add: counter_is_def)

section \<open>Values of the built-in functions at the inputs of the examples\<close>

lemma isoDate_values:
  "isoDate 0 = ''1970-01-01''"
  "isoDate 86399000 = ''1970-01-01''"
  "isoDate 86401000 = ''1970-01-02''"
  "isoDate 2592000000 = ''1970-01-31''"
  by code_simp+

lemma jsString_values:
  "jsString (Some 0) = ''0''" "jsString (Some 1) = ''1''" "jsString (Some 2) = ''2''"
  "jsString (Some 3) = ''3''" "jsString (Some 4) = ''4''" "jsString (Some 51) = ''51''"
  "jsString (Some 2592000000) = ''2592000000''" "jsString (Some 86401000) = ''86401000''"
  by code_simp+

lemma parseInt_values:
  "parseInt ''0'' = Some 0" "parseInt ''1'' = Some 1" "parseInt ''2'' = Some 2"
  "parseInt ''3'' = Some 3" "parseInt ''4'' = Some 4" "parseInt ''50'' = Some 50"
  by code_simp+

lemmas eval_simps = handleVote_def getVoteCounts_def summaryOf_def Let_def falsy_def str_def
  truthy_def parseCount_def kv_get_def kv_put_def live_def voteKeyOf_def rateLimitKeyOf_def
  cacheKeyOf_def jge_def jgt_def jadd_def jsub_def isoDate_values jsString_values parseInt_values



lemma accepted_two_votes: "accepted [] two_votes ''like'' ''a'' = 1 \<and> accepted [] two_votes ''dislike'' ''a'' = 1"
  by (simp add: two_votes_def accepted_vote_def eval_simps)

lemma cache_miss_two_votes: "\<not> truthy (kv_get (run [] two_votes) 50 (cacheKeyOf ''a''))"
  by (simp add: two_votes_def eval_simps)

lemma counters_after_run:
  "parseCount (kv_get (run [] tr) now (''like:'' @ i)) = Some (int (accepted [] tr ''like'' i))"
  "parseCount (kv_get (run [] tr) now (''dislike:'' @ i)) = Some (int (accepted [] tr ''dislike'' i))"
proof -
  have "counter_is (run [] tr) (''like'' @ '':'' @ i) (0 + accepted [] tr ''like'' i)"
    by (rule counter_is_run [OF counter_is_empty]) simp
  from counter_is_parse [OF this, of now]
  show "parseCount (kv_get (run [] tr) now (''like:'' @ i)) = Some (int (accepted [] tr ''like'' i))"
    by simp
  have "counter_is (run [] tr) (''dislike'' @ '':'' @ i) (0 + accepted [] tr ''dislike'' i)"
    by (rule counter_is_run [OF counter_is_empty]) simp
  from counter_is_parse [OF this, of now]
  show "parseCount (kv_get (run [] tr) now (''dislike:'' @ i)) = Some (int (accepted [] tr ''dislike'' i))"
    by simp
qed

lemma summaryOf_run:
  "summaryOf (run [] tr) now i = spec_read (accepted [] tr ''like'' i) (accepted [] tr ''dislike'' i) i"
  using counters_after_run [of tr now i]
  by (simp add: summaryOf_def Let_def jsub_def jadd_def spec_read_def)

text \<open>
  C2. Requests are served one after the other, starting from the empty store. If \<open>n\<close>
  like votes and \<open>m\<close> dislike votes for item \<open>i\<close> were accepted, then reading the counts of
  \<open>i\<close> gives likes \<open>n\<close>, dislikes \<open>m\<close>, net score \<open>n - m\<close> and total votes \<open>n + m\<close>: the
  projection of lines 170 to 179 always, and \<^verbatim>\<open>getVoteCounts\<close> whenever it does not answer
  from the cache. Net score and total are computed from the two stored counters.
\<close>

theorem counts_after_votes:
  "summaryOf (run [] tr) now i
     = spec_read (accepted [] tr ''like'' i) (accepted [] tr ''dislike'' i) i
   \<and> (i \<noteq> [] \<and> \<not> truthy (kv_get (run [] tr) now (cacheKeyOf i)) \<longrightarrow>
        fst (getVoteCounts (run [] tr) now (Some i))
          = Counts (Json (JSummary
              (spec_read (accepted [] tr ''like'' i) (accepted [] tr ''dislike'' i) i))) False)"
  by (simp add: summaryOf_run getVoteCounts_def Let_def falsy_def str_def)

text \<open>C2 at the requests \<open>two_votes\<close>: one like and one dislike are counted.\<close>

theorem counts_after_votes_witness:
  "fst (getVoteCounts (run [] two_votes) 50 (Some ''a''))
     = Counts (Json (JSummary \<lparr>item_id = ''a'', likes = Some 1, dislikes = Some 1,
                                 net_score = Some 0, total_votes = Some 2\<rparr>)) False"
proof -
  have acc: "accepted [] two_votes ''like'' ''a'' = 1 \<and> accepted [] two_votes ''dislike'' ''a'' = 1"
    by (simp add: two_votes_def accepted_vote_def eval_simps)
  have miss: "''a'' \<noteq> [] \<and> \<not> truthy (kv_get (run [] two_votes) 50 (cacheKeyOf ''a''))"
    by (simp add: two_votes_def eval_simps)
  from counts_after_votes [of two_votes 50 "''a''"] acc miss
  show ?thesis by (simp add: spec_read_def)
qed

subsection \<open>the cache is not touched by a vote\<close>

lemma run_append: "run s (xs @ ys) = run (run s xs) ys"
  by (induction xs arbitrary: s) auto

lemma accepted_append:
  "accepted s (xs @ ys) v i = accepted s xs v i + accepted (run s xs) ys v i"
  by (induction xs arbitrary: s) auto

lemma handleVote_response:
  assumes "vote_ok s now i t v"
  shows "fst (handleVote s now i t v d) =
           VoteOk (str i)
             (likes (summaryOf (snd (handleVote s now i t v d)) now (str i)))
             (dislikes (summaryOf (snd (handleVote s now i t v d)) now (str i)))
             (net_score (summaryOf (snd (handleVote s now i t v d)) now (str i)))"
  using assms by (auto simp: handleVote_def vote_ok_def Let_def summaryOf_def falsy_iff)

lemma handleVote_cache_key:
  "vote_ok s now i t v \<Longrightarrow>
     map_of (snd (handleVote s now i t v d)) (cacheKeyOf x) = map_of s (cacheKeyOf x)"
  unfolding handleVote_accepted(2)
  by (auto simp: vote_ok_def cacheKeyOf_def voteKeyOf_def rateLimitKeyOf_def)

text \<open>
  C8, as amended. The response of an accepted vote carries the totals of the voted item
  as the Counter Store holds them after the increment, this vote included. The cache entry
  of the item (of any item) is left exactly as it was: it is neither invalidated nor
  refreshed.
\<close>

theorem vote_response_fresh_cache_untouched:
  assumes "is_ok (fst (handleVote (run [] tr) now i t v d))"
  shows "fst (handleVote (run [] tr) now i t v d)
           = VoteOk (str i)
               (Some (int (accepted [] (tr @ [(now, Vote i t v d)]) ''like'' (str i))))
               (Some (int (accepted [] (tr @ [(now, Vote i t v d)]) ''dislike'' (str i))))
               (Some (int (accepted [] (tr @ [(now, Vote i t v d)]) ''like'' (str i))
                      - int (accepted [] (tr @ [(now, Vote i t v d)]) ''dislike'' (str i))))
       \<and> kv_get (snd (handleVote (run [] tr) now i t v d)) now' (cacheKeyOf x)
           = kv_get (run [] tr) now' (cacheKeyOf x)"
proof -
  from assms have ok: "vote_ok (run [] tr) now i t v" by (rule is_ok_vote_ok)
  have s': "snd (handleVote (run [] tr) now i t v d) = run [] (tr @ [(now, Vote i t v d)])"
    by (simp add: run_append split: prod.splits)
  have "fst (handleVote (run [] tr) now i t v d)
           = VoteOk (str i)
               (Some (int (accepted [] (tr @ [(now, Vote i t v d)]) ''like'' (str i))))
               (Some (int (accepted [] (tr @ [(now, Vote i t v d)]) ''dislike'' (str i))))
               (Some (int (accepted [] (tr @ [(now, Vote i t v d)]) ''like'' (str i))
                      - int (accepted [] (tr @ [(now, Vote i t v d)]) ''dislike'' (str i))))"
    unfolding handleVote_response [OF ok] s' summaryOf_run by (simp add: spec_read_def)
  moreover have "kv_get (snd (handleVote (run [] tr) now i t v d)) now' (cacheKeyOf x)
           = kv_get (run [] tr) now' (cacheKeyOf x)"
    by (simp add: kv_get_def handleVote_cache_key [OF ok])
  ultimately show ?thesis by blast
qed

text \<open>
  C8 as stated fails: item \<^verbatim>\<open>a\<close> is read at time 0, which caches its counts 0 and 0;
  one second later a like for \<^verbatim>\<open>a\<close> is accepted and answered with likes 1; a read right
  after the vote is a cache hit with likes 0.
\<close>

theorem vote_leaves_stale_cache:
  "fst (handleVote (snd (getVoteCounts [] 0 (Some ''a''))) 1000
          (Some ''a'') (Some ''tok'') (Some ''like'') None)
     = VoteOk ''a'' (Some 1) (Some 0) (Some 1)
   \<and> fst (getVoteCounts
            (snd (handleVote (snd (getVoteCounts [] 0 (Some ''a''))) 1000
                    (Some ''a'') (Some ''tok'') (Some ''like'') None))
            1000 (Some ''a''))
     = Counts (Json (JSummary \<lparr>item_id = ''a'', likes = Some 0, dislikes = Some 0,
                                 net_score = Some 0, total_votes = Some 0\<rparr>)) True"
  by (simp add: eval_simps)

text \<open>The amended C8 at a concrete accepted vote that follows a read of the same item.\<close>

theorem vote_response_fresh_cache_untouched_witness:
  "fst (handleVote (run [] [(0, GetVotes (Some ''a''))]) 1000
          (Some ''a'') (Some ''tok'') (Some ''like'') None)
     = VoteOk ''a'' (Some 1) (Some 0) (Some 1)
   \<and> kv_get (snd (handleVote (run [] [(0, GetVotes (Some ''a''))]) 1000
                    (Some ''a'') (Some ''tok'') (Some ''like'') None)) 1000 (cacheKeyOf ''a'')
     = kv_get (run [] [(0, GetVotes (Some ''a''))]) 1000 (cacheKeyOf ''a'')"
proof -
  have a: "is_ok (fst (handleVote (run [] [(0, GetVotes (Some ''a''))]) 1000
                         (Some ''a'') (Some ''tok'') (Some ''like'') None))"
    by (simp add: eval_simps is_ok_def)
  have n: "accepted [] ([(0, GetVotes (Some ''a''))]
              @ [(1000, Vote (Some ''a'') (Some ''tok'') (Some ''like'') None)]) ''like'' ''a'' = 1
         \<and> accepted [] ([(0, GetVotes (Some ''a''))]
              @ [(1000, Vote (Some ''a'') (Some ''tok'') (Some ''like'') None)]) ''dislike'' ''a'' = 0"
    by (simp add: accepted_vote_def eval_simps)
  from vote_response_fresh_cache_untouched [OF a, of 1000 "''a''"] n
  show ?thesis by (simp add: str_def)
qed

section \<open>Listing keys\<close>

lemma kv_list_alt:
  "kv_list s now pre =
     take 1000 (sorted_list_of_set {k. has_prefix pre k \<and> kv_get s now k \<noteq> None})"
proof -
  have "set (filter (\<lambda>k. has_prefix pre k \<and> kv_get s now k \<noteq> None) (map fst s))
          = {k. has_prefix pre k \<and> kv_get s now k \<noteq> None}"
    by (auto simp: kv_get_def map_of_eq_None_iff split: option.splits)
  then show ?thesis
    unfolding kv_list_def remdups_filter [symmetric]
    by (simp add: sorted_list_of_set_sort_remdups [symmetric])
qed

lemma kv_list_cong:
  "(\<And>k. has_prefix pre k \<Longrightarrow> kv_get s' now k = kv_get s now k) \<Longrightarrow>
     kv_list s' now pre = kv_list s now pre"
proof -
  assume "\<And>k. has_prefix pre k \<Longrightarrow> kv_get s' now k = kv_get s now k"
  then have "{k. has_prefix pre k \<and> kv_get s' now k \<noteq> None}
               = {k. has_prefix pre k \<and> kv_get s now k \<noteq> None}"
    by auto
  then show ?thesis by (simp add: kv_list_alt)
qed

lemma kv_list_member:
  "k \<in> set (kv_list s now pre) \<Longrightarrow> has_prefix pre k \<and> kv_get s now k \<noteq> None"
  unfolding kv_list_def by (auto dest: in_set_takeD)

lemma remove_first_prefix:
  "take (length pat) k = pat \<Longrightarrow> k \<noteq> [] \<Longrightarrow> remove_first pat k = drop (length pat) k"
  by (cases k) simp_all

lemma remove_first_like:
  assumes "has_prefix ''like:'' k"
  shows "''like:'' @ remove_first ''like:'' k = k"
proof -
  from assms have t: "take (length ''like:'') k = ''like:''" by (simp add: has_prefix_def)
  then have "k \<noteq> []" by auto
  with t have "remove_first ''like:'' k = drop (length ''like:'') k"
    by (rule remove_first_prefix)
  with t show ?thesis by (metis append_take_drop_id)
qed

lemma like_key_has_prefix: "has_prefix ''like:'' (''like:'' @ i)"
  by (simp add: has_prefix_def)

lemma dislike_no_like_prefix: "\<not> has_prefix ''like:'' (''dislike:'' @ i)"
  by (simp add: has_prefix_def)

section \<open>Sorting the rankings\<close>

lemma mset_sort_insert: "mset (sort_insert x ys) = add_mset x (mset ys)"
  by (induction ys) auto

lemma mset_js_sort: "mset (js_sort xs) = mset xs"
  unfolding js_sort_def by (induction xs) (auto simp: mset_sort_insert)

lemma set_sort_insert: "set (sort_insert x ys) = insert x (set ys)"
  by (metis mset_sort_insert set_mset_add_mset_insert set_mset_mset)

lemma jgt_compareItems:
  "net_score x \<noteq> None \<Longrightarrow> net_score y \<noteq> None \<Longrightarrow>
     jgt (compareItems x y) 0 \<longleftrightarrow> net_of x < net_of y"
  by (auto simp: jgt_def compareItems_def jsub_def net_of_def)

lemma sorted_sort_insert:
  assumes "\<forall>y \<in> set ys. net_score y \<noteq> None" and "net_score x \<noteq> None"
    and "sorted_wrt (\<lambda>a b. net_of b \<le> net_of a) ys"
  shows "sorted_wrt (\<lambda>a b. net_of b \<le> net_of a) (sort_insert x ys)"
  using assms
proof (induction ys)
  case Nil
  then show ?case by simp
next
  case (Cons y ys)
  then show ?case
    by (auto simp: jgt_compareItems set_sort_insert)
qed

lemma sorted_js_sort:
  "\<forall>x \<in> set xs. net_score x \<noteq> None \<Longrightarrow>
     sorted_wrt (\<lambda>a b. net_of b \<le> net_of a) (js_sort xs)"
proof (induction xs)
  case Nil
  then show ?case by (simp add: js_sort_def)
next
  case (Cons x xs)
  then have "sorted_wrt (\<lambda>a b. net_of b \<le> net_of a) (js_sort xs)" by simp
  moreover have "\<forall>y \<in> set (js_sort xs). net_score y \<noteq> None"
    using Cons.prems by (metis list.set_intros(2) mset_js_sort set_mset_mset)
  ultimately have "sorted_wrt (\<lambda>a b. net_of b \<le> net_of a) (sort_insert x (js_sort xs))"
    using Cons.prems by (intro sorted_sort_insert) auto
  then show ?case by (simp add: js_sort_def)
qed

lemma net_score_run: "net_score (summaryOf (run [] tr) now i) \<noteq> None"
  by (simp add: summaryOf_run spec_read_def)

section \<open>Rankings\<close>

lemma kv_list_ranked_votes: "kv_list (run [] ranked_votes) 50 ''like:'' = [''like:a'', ''like:b'']"
  by (simp add: ranked_votes_def kv_list_def has_prefix_def eval_simps)

lemma length_js_sort: "length (js_sort xs) = length xs"
  by (metis mset_js_sort size_mset)

lemma length_items_getRankings:
  "length (items (getRankings s now)) = length (kv_list s now ''like:'')"
  by (simp add: getRankings_def Let_def length_js_sort)

lemma items_getRankings:
  "items (getRankings s now) =
     js_sort (map (\<lambda>name. summaryOf s now (remove_first ''like:'' name)) (kv_list s now ''like:''))"
  by (simp add: getRankings_def Let_def)

text \<open>
  C4. After any sequence of requests served from the empty store, \<^verbatim>\<open>getRankings\<close>
  returns one summary for every key that the listing of prefix \<^verbatim>\<open>like:\<close> yields, in
  an order in which the net score never increases: for positions \<open>j < k\<close> the net score at
  \<open>j\<close> is at least the net score at \<open>k\<close>. \<^verbatim>\<open>total_items\<close> is the length of the sequence.
\<close>

theorem rankings_sorted_by_net_score:
  "mset (items (getRankings (run [] tr) now))
     = mset (map (\<lambda>name. summaryOf (run [] tr) now (remove_first ''like:'' name))
              (kv_list (run [] tr) now ''like:''))
   \<and> total_items (getRankings (run [] tr) now) = length (items (getRankings (run [] tr) now))
   \<and> (\<forall>j k. j < k \<and> k < length (items (getRankings (run [] tr) now)) \<longrightarrow>
         (\<exists>a b. net_score (items (getRankings (run [] tr) now) ! j) = Some a
              \<and> net_score (items (getRankings (run [] tr) now) ! k) = Some b
              \<and> b \<le> a))"
proof -
  let ?xs = "map (\<lambda>name. summaryOf (run [] tr) now (remove_first ''like:'' name))
               (kv_list (run [] tr) now ''like:'')"
  have it: "items (getRankings (run [] tr) now) = js_sort ?xs" by (rule items_getRankings)
  have some: "net_score x \<noteq> None" if "x \<in> set (js_sort ?xs)" for x
  proof -
    from that have "x \<in> set ?xs" by (metis mset_js_sort set_mset_mset)
    then obtain name where "x = summaryOf (run [] tr) now (remove_first ''like:'' name)"
      by auto
    then show ?thesis by (simp only: net_score_run not_False_eq_True)
  qed
  have srt: "sorted_wrt (\<lambda>a b. net_of b \<le> net_of a) (js_sort ?xs)"
  proof (rule sorted_js_sort, rule ballI)
    fix x assume "x \<in> set ?xs"
    then have "x \<in> set (js_sort ?xs)" by (metis mset_js_sort set_mset_mset)
    then show "net_score x \<noteq> None" by (rule some)
  qed
  have c3: "\<exists>a b. net_score (js_sort ?xs ! j) = Some a \<and> net_score (js_sort ?xs ! k) = Some b \<and> b \<le> a"
    if jk: "j < k \<and> k < length (js_sort ?xs)" for j k
  proof -
    from jk have "j < length (js_sort ?xs)" by simp
    then have "net_score (js_sort ?xs ! j) \<noteq> None" by (intro some nth_mem)
    then obtain a where a: "net_score (js_sort ?xs ! j) = Some a" by blast
    from jk have "net_score (js_sort ?xs ! k) \<noteq> None" by (intro some nth_mem) simp
    then obtain b where b: "net_score (js_sort ?xs ! k) = Some b" by blast
    from jk have "net_of (js_sort ?xs ! k) \<le> net_of (js_sort ?xs ! j)"
      by (intro sorted_wrt_nth_less [OF srt]) simp_all
    with a b have "b \<le> a" by (simp add: net_of_def)
    with a b show ?thesis by blast
  qed
  have c1: "mset (items (getRankings (run [] tr) now)) = mset ?xs"
    unfolding it by (rule mset_js_sort)
  have c2: "total_items (getRankings (run [] tr) now) = length (items (getRankings (run [] tr) now))"
    by (simp add: getRankings_def Let_def)
  from c1 c2 c3 show ?thesis unfolding it by blast
qed

text \<open>C4 at the requests \<open>ranked_votes\<close>: item \<^verbatim>\<open>b\<close> with two likes comes before \<^verbatim>\<open>a\<close>.\<close>

theorem rankings_sorted_by_net_score_witness:
  "\<exists>a b. net_score (items (getRankings (run [] ranked_votes) 50) ! 0) = Some a
       \<and> net_score (items (getRankings (run [] ranked_votes) 50) ! 1) = Some b
       \<and> b \<le> a"
proof -
  have "(0 :: nat) < 1 \<and> 1 < length (items (getRankings (run [] ranked_votes) 50))"
    by (simp add: length_items_getRankings kv_list_ranked_votes)
  with rankings_sorted_by_net_score [of ranked_votes 50] show ?thesis by blast
qed

section \<open>Statistics\<close>

lemma stats_loop_cong:
  assumes "\<And>name. name \<in> set names \<Longrightarrow>
             kv_get s' now (''like:'' @ remove_first ''like:'' name)
               = kv_get s now (''like:'' @ remove_first ''like:'' name)
           \<and> kv_get s' now (''dislike:'' @ remove_first ''like:'' name)
               = kv_get s now (''dislike:'' @ remove_first ''like:'' name)"
  shows "stats_loop s' now names acc = stats_loop s now names acc"
  using assms
proof (induction names arbitrary: acc)
  case Nil
  then show ?case by simp
next
  case (Cons name rest)
  obtain a b n where acc: "acc = (a, b, n)" by (cases acc)
  from Cons.prems [of name] Cons.IH Cons.prems show ?case
    unfolding acc by (simp add: Let_def)
qed

lemma stats_loop_count:
  "snd (snd (stats_loop s now names (a, b, n))) = n + length names"
  by (induction names arbitrary: a b n) (auto simp: Let_def)



text \<open>
  The percentage is computed in floating point. Where the exact percentage ends in one
  half, the product with 100 can fall just below it: 23 likes of 40 votes are 57.5 percent
  exactly, the worker computes \<^verbatim>\<open>0.575 * 100 = 57.49999999999999\<close> and reports 57.
\<close>

lemma percentage_in_double_precision: "js_percentage 23 40 = 57"
  by code_simp

lemma js_percentage_3_4: "js_percentage 3 4 = 75"
  by code_simp

text \<open>The example of the specification, run through the worker.\<close>

lemma stats_of_four_votes:
  "getStats (run [] four_votes) 50 =
     \<lparr>total_likes = Some 3, total_dislikes = Some 1, st_total_votes = Some 4,
      st_total_items = 1, like_percentage = Some 75, st_generated_at = 50\<rparr>"
  by (simp add: four_votes_def getStats_def kv_list_def has_prefix_def eval_simps js_percentage_3_4)

text \<open>
  C9. Rankings and statistics enumerate the keys with prefix \<^verbatim>\<open>like:\<close> only. Let no like
  for item \<open>i\<close> have been accepted, so that no key \<^verbatim>\<open>like:i\<close> exists. Then no entry of
  the rankings is for \<open>i\<close>; \<^verbatim>\<open>total_items\<close> of the statistics is the number of ranked
  items, so \<open>i\<close> is not counted; and the statistics are the same for every store \<open>s'\<close>
  that differs only in what it holds under \<^verbatim>\<open>dislike:i\<close>: the dislikes of \<open>i\<close> are in
  no total.
\<close>

theorem dislike_only_item_not_enumerated:
  assumes "accepted [] tr ''like'' i = 0"
    and "\<And>k. k \<noteq> ''dislike:'' @ i \<Longrightarrow> kv_get s' now k = kv_get (run [] tr) now k"
  shows "(\<forall>x \<in> set (items (getRankings (run [] tr) now)). item_id x \<noteq> i)
       \<and> st_total_items (getStats (run [] tr) now)
           = length (items (getRankings (run [] tr) now))
       \<and> getStats s' now = getStats (run [] tr) now"
proof -
  let ?s = "run [] tr"
  have "counter_is ?s (''like'' @ '':'' @ i) (0 + accepted [] tr ''like'' i)"
    by (rule counter_is_run [OF counter_is_empty]) simp
  with assms(1) have nolike: "kv_get ?s now (''like:'' @ i) = None"
    by (simp add: counter_is_def kv_get_def split: option.splits)
  have notin: "remove_first ''like:'' name \<noteq> i" if "name \<in> set (kv_list ?s now ''like:'')" for name
  proof
    assume e: "remove_first ''like:'' name = i"
    from kv_list_member [OF that] have p: "has_prefix ''like:'' name" and l: "kv_get ?s now name \<noteq> None"
      by simp_all
    from remove_first_like [OF p] e have "name = ''like:'' @ i" by simp
    with l nolike show False by simp
  qed
  have a: "\<forall>x \<in> set (items (getRankings ?s now)). item_id x \<noteq> i"
  proof
    fix x assume "x \<in> set (items (getRankings ?s now))"
    then have "x \<in> set (map (\<lambda>name. summaryOf ?s now (remove_first ''like:'' name))
                          (kv_list ?s now ''like:''))"
      unfolding items_getRankings by (metis mset_js_sort set_mset_mset)
    then obtain name where "name \<in> set (kv_list ?s now ''like:'')"
      and "x = summaryOf ?s now (remove_first ''like:'' name)" by auto
    with notin show "item_id x \<noteq> i" by (simp add: summaryOf_def Let_def)
  qed
  have b: "st_total_items (getStats ?s now) = length (items (getRankings ?s now))"
    using stats_loop_count [of ?s now "kv_list ?s now ''like:''" "Some 0" "Some 0" 0]
    by (auto simp: getStats_def length_items_getRankings split: prod.splits)
  have lst: "kv_list s' now ''like:'' = kv_list ?s now ''like:''"
  proof (rule kv_list_cong)
    fix k assume "has_prefix ''like:'' k"
    then have "k \<noteq> ''dislike:'' @ i" using dislike_no_like_prefix by blast
    then show "kv_get s' now k = kv_get ?s now k" by (rule assms(2))
  qed
  have "stats_loop s' now (kv_list ?s now ''like:'') acc
          = stats_loop ?s now (kv_list ?s now ''like:'') acc" for acc
  proof (rule stats_loop_cong)
    fix name assume n: "name \<in> set (kv_list ?s now ''like:'')"
    have "''like:'' @ remove_first ''like:'' name \<noteq> ''dislike:'' @ i" by simp
    moreover have "''dislike:'' @ remove_first ''like:'' name \<noteq> ''dislike:'' @ i"
      using notin [OF n] by simp
    ultimately show "kv_get s' now (''like:'' @ remove_first ''like:'' name)
               = kv_get ?s now (''like:'' @ remove_first ''like:'' name)
           \<and> kv_get s' now (''dislike:'' @ remove_first ''like:'' name)
               = kv_get ?s now (''dislike:'' @ remove_first ''like:'' name)"
      using assms(2) by blast
  qed
  then have c: "getStats s' now = getStats ?s now"
    by (simp add: getStats_def lst)
  from a b c show ?thesis by blast
qed

text \<open>
  C9 at the requests \<open>ranked_votes\<close>: item \<^verbatim>\<open>c\<close> has one dislike and no like; it is not
  ranked, and writing 999 under \<^verbatim>\<open>dislike:c\<close> changes no statistic.
\<close>

theorem dislike_only_item_not_enumerated_witness:
  "''c'' \<notin> set (map item_id (items (getRankings (run [] ranked_votes) 50)))
   \<and> st_total_items (getStats (run [] ranked_votes) 50)
        = length (items (getRankings (run [] ranked_votes) 50))
   \<and> getStats (kv_put (run [] ranked_votes) 7 (''dislike:'' @ ''c'') (Text ''999'') None) 50
        = getStats (run [] ranked_votes) 50"
proof -
  have a: "accepted [] ranked_votes ''like'' ''c'' = 0"
    by (simp add: ranked_votes_def accepted_vote_def eval_simps)
  have b: "kv_get (kv_put (run [] ranked_votes) 7 (''dislike:'' @ ''c'') (Text ''999'') None) 50 k
             = kv_get (run [] ranked_votes) 50 k" if "k \<noteq> ''dislike:'' @ ''c''" for k
    using that by (rule kv_get_put_other)
  from dislike_only_item_not_enumerated [OF a b] show ?thesis by auto
qed

end
